theory Spec2Isabelle
  imports Complex_Main "HOL-Library.Word"
begin

section \<open>ModuloX: the distributed coordination layer\<close>

text \<open>
  A shallow embedding of the coordination core of ModuloX (Go): the versioned state
  store, the circuit breaker, the rate limiter, retry with backoff, the sequential and
  mixture workflows, and the node registry with its load-aware scheduler.

  Conventions of the embedding.
  \<^item> A Go method that mutates its receiver takes the receiver and returns the new one.
  \<^item> A Go \<open>error\<close> result is \<open>error option\<close> (\<open>None\<close> is \<open>nil\<close>); a result
    \<open>(string, error)\<close> is \<open>error + string\<close> (\<open>Inl\<close> the error; the string returned
    beside a non-nil error is always \<open>""\<close> in this code base).
  \<^item> A callback or an agent is a state transformer over a world \<open>'w\<close> that stands for
    everything the callee may read or change, so that the number and the order of the
    invocations are visible in the result.
  \<^item> \<open>time.Now()\<close> is an argument of the operation that reads the clock; instants and
    durations are integers counting nanoseconds.
  \<^item> A method whose body is one critical section of the component's lock is one step
    of the component. \<open>AllowRequest\<close> of the circuit breaker is two critical sections:
    it is modelled as one call for a single caller and as its two sections, between
    which other goroutines run, for the shared breaker.
\<close>

subsection \<open>Errors\<close>

text \<open>
  \<open>Errorf msg\<close> is \<open>fmt.Errorf(msg)\<close> without a wrapped cause and also stands for any
  opaque error of a collaborator; \<open>Wrapf prefix e\<close> is \<open>fmt.Errorf(prefix + ": %w", e)\<close>;
  \<open>ReliabilityError\<close> is the string type of that name; \<open>Canceled\<close> and
  \<open>DeadlineExceeded\<close> are the two values of \<open>ctx.Err()\<close>.
\<close>

datatype error =
    ReliabilityError string
  | Canceled
  | DeadlineExceeded
  | Errorf string
  | Wrapf string error

definition ErrCircuitOpen :: error where
  "ErrCircuitOpen = ReliabilityError ''circuit breaker is open''"

definition ErrRateLimited :: error where
  "ErrRateLimited = ReliabilityError ''rate limit exceeded''"

subsection \<open>The versioned state store\<close>

record 'v StateEntry =
  Value :: 'v
  Version :: "64 word"
  UpdatedAt :: int

record 'v StateStore =
  states :: "string \<rightharpoonup> 'v StateEntry"

definition NewStateStore :: "'v StateStore" where
  "NewStateStore = \<lparr>states = Map.empty\<rparr>"

text \<open>\<open>Set\<close>: version 1 for a new key, the current version plus one (on \<open>int64\<close>) otherwise.\<close>

definition Set_state :: "'v StateStore \<Rightarrow> string \<Rightarrow> 'v \<Rightarrow> int \<Rightarrow> 'v StateStore" where
  "Set_state ss key val now =
     (let version = (case states ss key of
                       None \<Rightarrow> 1
                     | Some currentEntry \<Rightarrow> Version currentEntry + 1)
      in ss\<lparr>states := (states ss)(key \<mapsto>
             \<lparr>Value = val, Version = version, UpdatedAt = now\<rparr>)\<rparr>)"

definition Get_state :: "'v StateStore \<Rightarrow> string \<Rightarrow> 'v StateEntry option" where
  "Get_state ss key = states ss key"

text \<open>
  A client's operations on the store, one at a time: a write (with the instant the clock
  shows) or a read. A read leaves the store as it is.
\<close>

datatype 'v store_op = OpSet string 'v int | OpGet string

fun apply_store_op :: "'v StateStore \<Rightarrow> 'v store_op \<Rightarrow> 'v StateStore" where
  "apply_store_op ss (OpSet key val now) = Set_state ss key val now"
| "apply_store_op ss (OpGet key) = ss"

fun run_store_ops :: "'v StateStore \<Rightarrow> 'v store_op list \<Rightarrow> 'v StateStore" where
  "run_store_ops ss [] = ss"
| "run_store_ops ss (op # ops) = run_store_ops (apply_store_op ss op) ops"

text \<open>The number of writes to \<open>key\<close> in a sequence of operations.\<close>

fun count_sets :: "string \<Rightarrow> 'v store_op list \<Rightarrow> nat" where
  "count_sets key [] = 0"
| "count_sets key (OpSet k val now # ops) =
     (if k = key then Suc (count_sets key ops) else count_sets key ops)"
| "count_sets key (OpGet k # ops) = count_sets key ops"

text \<open>The version a key has in a store, 0 standing for an absent key.\<close>

definition version_of :: "'v StateStore \<Rightarrow> string \<Rightarrow> 64 word" where
  "version_of ss key = (case Get_state ss key of None \<Rightarrow> 0 | Some e \<Rightarrow> Version e)"

text \<open>
  Three writes to \<open>a\<close>, interleaved with a write to \<open>b\<close> and a read: \<open>a\<close> is at
  version 3.
\<close>

definition ops_example :: "string store_op list" where
  "ops_example =
     [OpSet ''a'' ''x'' 10, OpSet ''b'' ''u'' 11, OpSet ''a'' ''y'' 12, OpGet ''a'',
      OpSet ''a'' ''z'' 13]"


subsection \<open>Time\<close>

text \<open>
  An instant (\<open>time.Time\<close>) is the number of nanoseconds since Go's zero \<open>Time\<close>, so
  that the zero value of a \<open>time.Time\<close> field is 0. A \<open>time.Duration\<close> is a number of
  nanoseconds in the range of \<open>int64\<close>: \<open>Time.Sub\<close> (and \<open>time.Since\<close>, which is
  \<open>time.Now().Sub\<close>) returns the difference, replaced by the largest or the smallest
  duration when it lies outside that range.
\<close>

definition maxDuration :: int where
  "maxDuration = 2 ^ 63 - 1"

definition minDuration :: int where
  "minDuration = - (2 ^ 63)"

definition time_Sub :: "int \<Rightarrow> int \<Rightarrow> int" where
  "time_Sub t u =
     (let d = t - u
      in if d > maxDuration then maxDuration
         else if d < minDuration then minDuration
         else d)"

subsection \<open>Callbacks and the counting of their invocations\<close>

text \<open>
  A Go closure \<open>func() error\<close> is a function from the world before the call to its
  result and the world after it. \<open>counting fn\<close> is \<open>fn\<close> with a counter beside the
  world that every invocation increments: running an operation on \<open>counting fn\<close> from
  counter 0 shows how many times the operation invoked \<open>fn\<close>.
\<close>

type_synonym 'w callback = "'w \<Rightarrow> error option \<times> 'w"

definition counting :: "('w \<Rightarrow> 'r \<times> 'w) \<Rightarrow> ('w \<times> nat) \<Rightarrow> 'r \<times> ('w \<times> nat)" where
  "counting fn = (\<lambda>(w, k). case fn w of (r, w') \<Rightarrow> (r, (w', Suc k)))"

subsection \<open>The circuit breaker\<close>

datatype CircuitState = StateClosed | StateOpen | StateHalfOpen

text \<open>\<open>failureCount\<close> and \<open>failureThreshold\<close> are Go \<open>int\<close>s: 64 bits, compared as signed.\<close>

record CircuitBreaker =
  state :: CircuitState
  failureCount :: "64 word"
  failureThreshold :: "64 word"
  resetTimeout :: int
  lastFailure :: int

definition NewCircuitBreaker :: "64 word \<Rightarrow> int \<Rightarrow> CircuitBreaker" where
  "NewCircuitBreaker threshold timeout =
     \<lparr>state = StateClosed, failureCount = 0, failureThreshold = threshold,
      resetTimeout = timeout, lastFailure = 0\<rparr>"

text \<open>
  \<open>AllowRequest\<close>, called when the clock shows \<open>now\<close>, as a single caller sees it
  (no other goroutine runs on the breaker during the call): the answer and the breaker
  after it.
\<close>

definition AllowRequest :: "CircuitBreaker \<Rightarrow> int \<Rightarrow> bool \<times> CircuitBreaker" where
  "AllowRequest cb now =
     (case state cb of
        StateClosed \<Rightarrow> (True, cb)
      | StateOpen \<Rightarrow>
          if time_Sub now (lastFailure cb) > resetTimeout cb
          then (True, cb\<lparr>state := StateHalfOpen\<rparr>)
          else (False, cb)
      | StateHalfOpen \<Rightarrow> (True, cb))"

text \<open>\<open>RecordResult(err)\<close>, called when the clock shows \<open>now\<close>.\<close>

definition RecordResult :: "CircuitBreaker \<Rightarrow> error option \<Rightarrow> int \<Rightarrow> CircuitBreaker" where
  "RecordResult cb err now =
     (case err of
        Some e \<Rightarrow>
          (let cb1 = cb\<lparr>failureCount := failureCount cb + 1, lastFailure := now\<rparr>
           in if state cb1 = StateHalfOpen \<or> failureThreshold cb1 \<le>s failureCount cb1
              then cb1\<lparr>state := StateOpen\<rparr>
              else cb1)
      | None \<Rightarrow>
          (if state cb = StateHalfOpen
           then cb\<lparr>state := StateClosed, failureCount := 0\<rparr>
           else cb))"

text \<open>
  \<open>Execute(fn)\<close>: \<open>now\<close> is the clock at \<open>AllowRequest\<close>, \<open>later\<close> the clock at
  \<open>RecordResult\<close>. The result is the error returned, the breaker and the world.
\<close>

definition Execute_breaker ::
  "CircuitBreaker \<Rightarrow> 'w callback \<Rightarrow> int \<Rightarrow> int \<Rightarrow> 'w \<Rightarrow> error option \<times> CircuitBreaker \<times> 'w" where
  "Execute_breaker cb fn now later w =
     (case AllowRequest cb now of
        (False, cb') \<Rightarrow> (Some ErrCircuitOpen, cb', w)
      | (True, cb') \<Rightarrow>
          (case fn w of (err, w') \<Rightarrow> (err, RecordResult cb' err later, w')))"

text \<open>
  The breaker used by a single caller: its steps are the calls of its two methods, one
  after the other.
\<close>

datatype breaker_call = CallAllowRequest int | CallRecordResult "error option" int

fun breaker_step :: "CircuitBreaker \<Rightarrow> breaker_call \<Rightarrow> CircuitBreaker" where
  "breaker_step cb (CallAllowRequest now) = snd (AllowRequest cb now)"
| "breaker_step cb (CallRecordResult err now) = RecordResult cb err now"

fun breaker_run :: "CircuitBreaker \<Rightarrow> breaker_call list \<Rightarrow> CircuitBreaker" where
  "breaker_run cb [] = cb"
| "breaker_run cb (c # cs) = breaker_run (breaker_step cb c) cs"

text \<open>A breaker with threshold 3 and a reset timeout of one second, and a failing call.\<close>

definition breaker3 :: CircuitBreaker where
  "breaker3 = NewCircuitBreaker 3 1000000000"

definition boom :: error where
  "boom = Errorf ''boom''"

definition always_fails :: "nat callback" where
  "always_fails = (\<lambda>w. (Some boom, Suc w))"

definition succeeds :: "nat callback" where
  "succeeds = (\<lambda>w. (None, Suc w))"

text \<open>That breaker after two recorded failures, and after a third.\<close>

definition closed2 :: CircuitBreaker where
  "closed2 = breaker_run breaker3
     [CallRecordResult (Some boom) 100, CallRecordResult (Some boom) 200]"

definition open3 :: CircuitBreaker where
  "open3 = breaker_step closed2 (CallRecordResult (Some boom) 300)"

text \<open>
  The breaker shared by goroutines. \<open>RecordResult\<close> holds the write lock from its first
  statement to its last: it is one step. \<open>AllowRequest\<close> is two critical sections. It
  reads \<open>state\<close> and \<open>lastFailure\<close> holding the read lock; when it finds the breaker
  Open and the timeout elapsed it releases the read lock, takes the write lock and
  assigns \<open>StateHalfOpen\<close> to \<open>state\<close>, without reading \<open>state\<close> again. A
  \<open>sync.RWMutex\<close> cannot be upgraded, so other goroutines may run between the release
  and the acquisition.

  \<open>AllowRequest_read\<close> is the first section: the answer of the call, and whether the
  second section follows. \<open>AllowRequest_write\<close> is the second.
\<close>

definition AllowRequest_read :: "CircuitBreaker \<Rightarrow> int \<Rightarrow> bool \<times> bool" where
  "AllowRequest_read cb now =
     (case state cb of
        StateClosed \<Rightarrow> (True, False)
      | StateOpen \<Rightarrow>
          if time_Sub now (lastFailure cb) > resetTimeout cb
          then (True, True)
          else (False, False)
      | StateHalfOpen \<Rightarrow> (True, False))"

definition AllowRequest_write :: "CircuitBreaker \<Rightarrow> CircuitBreaker" where
  "AllowRequest_write cb = cb\<lparr>state := StateHalfOpen\<rparr>"

text \<open>
  The shared breaker and the goroutines that have left the first section of
  \<open>AllowRequest\<close> and not yet run the second. An event is one critical section run by
  one goroutine; a schedule is a list of events. An event that the program cannot
  perform (the second section without the first, a second call by a goroutine that is
  still inside its first) has no successor.
\<close>

record breaker_sys =
  shared :: CircuitBreaker
  between_sections :: "nat list"

datatype breaker_event =
    EvAllowRead nat int
  | EvAllowWrite nat
  | EvRecordResult nat "error option" int

fun sys_step :: "breaker_sys \<Rightarrow> breaker_event \<Rightarrow> breaker_sys option" where
  "sys_step s (EvAllowRead g now) =
     (if List.member (between_sections s) g then None
      else if snd (AllowRequest_read (shared s) now)
           then Some (s\<lparr>between_sections := g # between_sections s\<rparr>)
           else Some s)"
| "sys_step s (EvAllowWrite g) =
     (if List.member (between_sections s) g
      then Some \<lparr>shared = AllowRequest_write (shared s),
                 between_sections = removeAll g (between_sections s)\<rparr>
      else None)"
| "sys_step s (EvRecordResult g err now) =
     (if List.member (between_sections s) g then None
      else Some (s\<lparr>shared := RecordResult (shared s) err now\<rparr>))"

fun sys_run :: "breaker_sys \<Rightarrow> breaker_event list \<Rightarrow> breaker_sys option" where
  "sys_run s [] = Some s"
| "sys_run s (e # es) = (case sys_step s e of None \<Rightarrow> None | Some s' \<Rightarrow> sys_run s' es)"

text \<open>
  Two goroutines call \<open>Execute\<close> with a callback that succeeds, on the breaker that
  the third failure opened at instant 300, more than one second later. Goroutine 1 runs
  the first section of \<open>AllowRequest\<close>; goroutine 2 then runs its whole \<open>Execute\<close>
  (both sections of \<open>AllowRequest\<close>, the callback, \<open>RecordResult(nil)\<close>).
\<close>

definition sys_open3 :: breaker_sys where
  "sys_open3 = \<lparr>shared = open3, between_sections = []\<rparr>"

definition race_success :: "breaker_event list" where
  "race_success =
     [EvAllowRead 1 1000000301,
      EvAllowRead 2 1000000302, EvAllowWrite 2, EvRecordResult 2 None 1000000400]"

text \<open>
  Goroutine 3 was admitted while the breaker was closed and its callback fails late.
  Goroutine 1 runs the first section of \<open>AllowRequest\<close>; goroutine 3 then records its
  failure.
\<close>

definition race_failure :: "breaker_event list" where
  "race_failure =
     [EvAllowRead 1 1000000301, EvRecordResult 3 (Some boom) 1000000302]"

subsection \<open>The rate limiter\<close>

text \<open>
  \<open>rate\<close> and \<open>tokens\<close> are \<open>float64\<close> in the source. They are modelled as exact
  rationals: the model does not round, and has no infinities and no NaN.
  \<open>Duration.Seconds\<close> is the duration in nanoseconds divided by \<open>10\<^sup>9\<close>.
\<close>

record RateLimiter =
  rate :: rat
  bucketSize :: int
  tokens :: rat
  lastRefill :: int






subsection \<open>Nodes\<close>

text \<open>
  An agent, as a node sees it: the name \<open>GetName\<close> returns and what \<open>Execute\<close> returns
  for a task. \<open>PublishEvent\<close> is a remote call; its result is an input of the model, a
  function from the event type to the error returned (\<open>None\<close> when the event went out).
\<close>

record Agent =
  GetName :: string
  Execute :: "string \<Rightarrow> error + string"

type_synonym publisher = "string \<Rightarrow> error option"

datatype NodeStatus = StatusUnknown | StatusHealthy | StatusOverloaded | StatusUnhealthy

record NodeConfig =
  ID :: string
  Address :: string
  ClusterAddr :: string
  Tags :: "string list"

record Node =
  config :: NodeConfig
  agents :: "string \<rightharpoonup> Agent"
  capacity :: int
  load :: int
  status :: NodeStatus
  lastPing :: int

text \<open>\<open>NewNode\<close> once the client is connected, at instant \<open>now\<close>.\<close>

definition NewNode :: "NodeConfig \<Rightarrow> int \<Rightarrow> Node" where
  "NewNode cfg now =
     \<lparr>config = cfg, agents = Map.empty, capacity = 100, load = 0,
      status = StatusHealthy, lastPing = now\<rparr>"

text \<open>
  \<open>RegisterAgent\<close>: the error returned and the node after the call. The increment of
  \<open>load\<close> cannot overflow, as \<open>load < capacity\<close> where it happens.
\<close>

definition RegisterAgent :: "Node \<Rightarrow> Agent \<Rightarrow> publisher \<Rightarrow> error option \<times> Node" where
  "RegisterAgent n a publish =
     (if load n \<ge> capacity n then (Some (Errorf ''node is at capacity''), n)
      else (let id = GetName a;
                n' = n\<lparr>agents := (agents n)(id \<mapsto> a), load := load n + 1\<rparr>
            in (publish ''agent_registered'', n')))"

text \<open>The same agent registered \<open>k\<close> times in a row; the errors returned, in order.\<close>

fun RegisterAgent_times :: "nat \<Rightarrow> Node \<Rightarrow> Agent \<Rightarrow> publisher \<Rightarrow> error option list \<times> Node" where
  "RegisterAgent_times 0 n a publish = ([], n)"
| "RegisterAgent_times (Suc k) n a publish =
     (case RegisterAgent n a publish of
        (err, n') \<Rightarrow>
          (case RegisterAgent_times k n' a publish of (errs, n'') \<Rightarrow> (err # errs, n'')))"


subsection \<open>The cluster and its scheduler\<close>













text \<open>
  Example nodes: an agent that echoes its task, a node hosting it with a given load out
  of 100, requirements naming the agent and a tag, and a publisher that always succeeds.
\<close>

definition echo_agent :: Agent where
  "echo_agent = \<lparr>GetName = ''echo'', Execute = (\<lambda>task. Inr task)\<rparr>"

definition node_with_load :: "string \<Rightarrow> int \<Rightarrow> Node" where
  "node_with_load name l =
     (NewNode \<lparr>ID = name, Address = ''addr'', ClusterAddr = ''cluster'', Tags = [''gpu'']\<rparr> 0)
       \<lparr>agents := [''echo'' \<mapsto> echo_agent], load := l\<rparr>"

definition node_A :: Node where "node_A = node_with_load ''A'' 80"


definition publish_ok :: publisher where
  "publish_ok = (\<lambda>eventType. None)"

subsection \<open>Contexts and workflow agents\<close>




subsection \<open>The sequential workflow\<close>










subsection \<open>Retry with backoff\<close>
















section \<open>Properties of the state store\<close>

lemma version_of_Set_same:
  "version_of (Set_state ss key val now) key = version_of ss key + 1"
  by (simp add: version_of_def Get_state_def Set_state_def split: option.splits)

lemma version_of_Set_other:
  "k \<noteq> key \<Longrightarrow> version_of (Set_state ss k val now) key = version_of ss key"
  by (simp add: version_of_def Get_state_def Set_state_def)

lemma present_Set:
  "(Get_state (Set_state ss k val now) key = None) = (k \<noteq> key \<and> Get_state ss key = None)"
  by (simp add: Get_state_def Set_state_def)

lemma version_of_run:
  "version_of (run_store_ops ss ops) key = version_of ss key + of_nat (count_sets key ops)"
proof (induction ops arbitrary: ss)
  case Nil
  show ?case by simp
next
  case (Cons op ops)
  show ?case
  proof (cases op)
    case (OpSet k val now)
    then show ?thesis
      using Cons.IH [of "Set_state ss k val now"]
      by (cases "k = key") (simp_all add: version_of_Set_same version_of_Set_other)
  next
    case (OpGet k)
    then show ?thesis using Cons.IH [of ss] by simp
  qed
qed

lemma present_run:
  "(Get_state (run_store_ops ss ops) key = None) =
     (Get_state ss key = None \<and> count_sets key ops = 0)"
proof (induction ops arbitrary: ss)
  case Nil
  show ?case by simp
next
  case (Cons op ops)
  show ?case
  proof (cases op)
    case (OpSet k val now)
    then show ?thesis
      using Cons.IH [of "Set_state ss k val now"] by (auto simp: present_Set)
  next
    case (OpGet k)
    then show ?thesis using Cons.IH [of ss] by simp
  qed
qed

lemma sint_of_nat_small:
  assumes "n < 2 ^ 63"
  shows "sint (of_nat n :: 64 word) = int n"
proof -
  from assms have b: "int n < 2 ^ 63"
    by (metis of_nat_less_iff of_nat_numeral of_nat_power)
  have "sint (word_of_int (int n) :: 64 word) = signed_take_bit 63 (int n)"
    by (simp only: sint_sbintrunc') simp
  also have "\<dots> = int n"
    using b by (simp add: signed_take_bit_int_eq_self)
  finally show ?thesis by simp
qed

text \<open>
  C5. Starting from an empty store and running any sequence of operations (writes to
  this key interleaved at will with writes to and reads of any keys), the key is present
  exactly when it has been written, and the version recorded for it is the number \<open>n\<close>
  of writes to it so far: 1 after the first write, one more after each further write,
  for every \<open>n\<close> that an \<open>int64\<close> holds. Since this holds after every prefix of the run,
  the version never goes down and is never used twice.
\<close>

theorem Set_version_counts_writes:
  fixes ops :: "'v store_op list"
  shows "((Get_state (run_store_ops NewStateStore ops) key = None) = (count_sets key ops = 0)) \<and>
         (count_sets key ops < 2 ^ 63 \<longrightarrow>
            (\<forall>e. Get_state (run_store_ops NewStateStore ops) key = Some e \<longrightarrow>
                 sint (Version e) = int (count_sets key ops))) \<and>
         (\<forall>ss e0 val now. Get_state ss key = Some e0 \<longrightarrow>
            (\<exists>e1. Get_state (Set_state ss key val now) key = Some (e1 :: 'v StateEntry) \<and>
                  Version e1 = Version e0 + 1))"
proof (intro conjI impI allI)
  show "(Get_state (run_store_ops NewStateStore ops) key = None) = (count_sets key ops = 0)"
    by (simp add: present_run) (simp add: Get_state_def NewStateStore_def)
next
  fix e
  assume small: "count_sets key ops < 2 ^ 63"
    and got: "Get_state (run_store_ops NewStateStore ops) key = Some e"
  have "version_of (run_store_ops NewStateStore ops) key =
        version_of (NewStateStore :: 'v StateStore) key + of_nat (count_sets key ops)"
    by (rule version_of_run)
  moreover have "version_of (NewStateStore :: 'v StateStore) key = 0"
    by (simp add: version_of_def Get_state_def NewStateStore_def)
  moreover have "version_of (run_store_ops NewStateStore ops) key = Version e"
    using got by (simp add: version_of_def)
  ultimately have "Version e = of_nat (count_sets key ops)" by simp
  then show "sint (Version e) = int (count_sets key ops)"
    using small by (simp add: sint_of_nat_small)
next
  fix ss :: "'v StateStore" and e0 val now
  assume "Get_state ss key = Some e0"
  then show "\<exists>e1. Get_state (Set_state ss key val now) key = Some e1 \<and>
              Version e1 = Version e0 + 1"
    by (simp add: Get_state_def Set_state_def)
qed

theorem Set_version_counts_writes_witness:
  "count_sets ''a'' ops_example = 3 \<and>
   Get_state (run_store_ops NewStateStore ops_example) ''a'' =
     Some \<lparr>Value = ''z'', Version = 3, UpdatedAt = 13\<rparr> \<and>
   sint (Version \<lparr>Value = ''z'', Version = 3 :: 64 word, UpdatedAt = 13 :: int\<rparr>) =
     int (count_sets ''a'' ops_example)"
proof -
  have c: "count_sets ''a'' ops_example = 3"
    by (simp add: ops_example_def)
  have g: "Get_state (run_store_ops NewStateStore ops_example) ''a'' =
             Some \<lparr>Value = ''z'', Version = 3, UpdatedAt = 13\<rparr>"
    by (simp add: ops_example_def NewStateStore_def Set_state_def Get_state_def)
  have small: "count_sets ''a'' ops_example < 2 ^ 63"
    by (simp add: c)
  from Set_version_counts_writes [of ops_example "''a''"] small g
  have "sint (Version \<lparr>Value = ''z'', Version = 3 :: 64 word, UpdatedAt = 13 :: int\<rparr>) =
          int (count_sets ''a'' ops_example)"
    by blast
  with c g show ?thesis by blast
qed


section \<open>Properties of the circuit breaker\<close>

lemma AllowRequest_state:
  "state (snd (AllowRequest cb now)) =
     (if state cb = StateOpen \<and> time_Sub now (lastFailure cb) > resetTimeout cb
      then StateHalfOpen else state cb)"
  by (simp add: AllowRequest_def split: CircuitState.splits)

lemma AllowRequest_answer:
  "fst (AllowRequest cb now) =
     (\<not> (state cb = StateOpen \<and> \<not> time_Sub now (lastFailure cb) > resetTimeout cb))"
  by (simp add: AllowRequest_def split: CircuitState.splits)

lemma AllowRequest_count:
  "failureCount (snd (AllowRequest cb now)) = failureCount cb"
  by (simp add: AllowRequest_def split: CircuitState.splits)

lemma RecordResult_failure_state:
  "state (RecordResult cb (Some e) now) =
     (if state cb = StateHalfOpen \<or> failureThreshold cb \<le>s failureCount cb + 1
      then StateOpen else state cb)"
  by (simp add: RecordResult_def Let_def)

lemma RecordResult_failure_count:
  "failureCount (RecordResult cb (Some e) now) = failureCount cb + 1"
  by (simp add: RecordResult_def Let_def)

lemma RecordResult_success_state:
  "state (RecordResult cb None now) =
     (if state cb = StateHalfOpen then StateClosed else state cb)"
  by (simp add: RecordResult_def)

lemma RecordResult_success_count:
  "failureCount (RecordResult cb None now) =
     (if state cb = StateHalfOpen then 0 else failureCount cb)"
  by (simp add: RecordResult_def)

text \<open>
  The breaker used by a single caller. Every step (a call of \<open>AllowRequest\<close> or of
  \<open>RecordResult\<close>) either leaves the state as it is or makes one of four transitions:
  Closed to Open, exactly when a failure is recorded and the failure count, incremented
  by it, is at least \<open>failureThreshold\<close>;
  Open to HalfOpen, exactly when \<open>AllowRequest\<close> is called more than \<open>resetTimeout\<close>
  after the last failure;
  HalfOpen to Closed, exactly when a success is recorded, and the failure count is then 0;
  HalfOpen to Open, exactly when a failure is recorded, whatever the failure count.
  There is no step from Closed to HalfOpen and none from Open to Closed.
\<close>

lemma single_caller_transitions:
  fixes cb :: CircuitBreaker and c :: breaker_call
  defines "cb' \<equiv> breaker_step cb c"
  shows "((state cb = StateClosed \<and> state cb' = StateOpen) =
            (state cb = StateClosed \<and> (\<exists>e now. c = CallRecordResult (Some e) now) \<and>
             failureThreshold cb \<le>s failureCount cb' \<and>
             failureCount cb' = failureCount cb + 1)) \<and>
         ((state cb = StateOpen \<and> state cb' = StateHalfOpen) =
            (state cb = StateOpen \<and>
             (\<exists>now. c = CallAllowRequest now \<and>
                    resetTimeout cb < time_Sub now (lastFailure cb)))) \<and>
         ((state cb = StateHalfOpen \<and> state cb' = StateClosed) =
            (state cb = StateHalfOpen \<and> (\<exists>now. c = CallRecordResult None now) \<and>
             failureCount cb' = 0)) \<and>
         ((state cb = StateHalfOpen \<and> state cb' = StateOpen) =
            (state cb = StateHalfOpen \<and> (\<exists>e now. c = CallRecordResult (Some e) now))) \<and>
         \<not> (state cb = StateClosed \<and> state cb' = StateHalfOpen) \<and>
         \<not> (state cb = StateOpen \<and> state cb' = StateClosed)"
proof (cases c)
  case (CallAllowRequest now)
  then have s: "state cb' =
      (if state cb = StateOpen \<and> time_Sub now (lastFailure cb) > resetTimeout cb
       then StateHalfOpen else state cb)"
    by (simp add: cb'_def AllowRequest_state)
  show ?thesis
    unfolding s using CallAllowRequest by (cases "state cb") auto
next
  case (CallRecordResult err now)
  show ?thesis
  proof (cases err)
    case None
    then have s: "state cb' = (if state cb = StateHalfOpen then StateClosed else state cb)"
      and k: "failureCount cb' = (if state cb = StateHalfOpen then 0 else failureCount cb)"
      using CallRecordResult
      by (simp_all add: cb'_def RecordResult_success_state RecordResult_success_count)
    show ?thesis
      unfolding s k using CallRecordResult None by (cases "state cb") auto
  next
    case (Some e)
    then have s: "state cb' =
        (if state cb = StateHalfOpen \<or> failureThreshold cb \<le>s failureCount cb + 1
         then StateOpen else state cb)"
      and k: "failureCount cb' = failureCount cb + 1"
      using CallRecordResult
      by (simp_all add: cb'_def RecordResult_failure_state RecordResult_failure_count)
    show ?thesis
      unfolding s k using CallRecordResult Some by (cases "state cb") auto
  qed
qed

lemma closed2_eq:
  "closed2 = \<lparr>state = StateClosed, failureCount = 2, failureThreshold = 3,
      resetTimeout = 1000000000, lastFailure = 200\<rparr>"
  by (simp add: closed2_def breaker3_def NewCircuitBreaker_def RecordResult_def Let_def
      word_sle_eq)

lemma open3_eq:
  "open3 = \<lparr>state = StateOpen, failureCount = 3, failureThreshold = 3,
      resetTimeout = 1000000000, lastFailure = 300\<rparr>"
  by (simp add: open3_def closed2_eq RecordResult_def Let_def)

text \<open>
  The scenario of the specification, threshold 3: the third failure opens the breaker;
  \<open>AllowRequest\<close> right after is refused; more than the reset timeout later it is
  granted and the breaker is half open; a success then closes it with the count at 0, a
  failure reopens it.
\<close>

lemma breaker_scenario:
  "state closed2 = StateClosed \<and> state open3 = StateOpen \<and>
   AllowRequest open3 301 = (False, open3) \<and>
   AllowRequest open3 1000000301 = (True, open3\<lparr>state := StateHalfOpen\<rparr>) \<and>
   RecordResult (open3\<lparr>state := StateHalfOpen\<rparr>) None 1000000400 =
     open3\<lparr>state := StateClosed, failureCount := 0\<rparr> \<and>
   state (RecordResult (open3\<lparr>state := StateHalfOpen\<rparr>) (Some boom) 1000000400) = StateOpen"
  by (simp add: closed2_eq open3_eq AllowRequest_def RecordResult_def Let_def
      time_Sub_def maxDuration_def minDuration_def)

lemma single_caller_transitions_example:
  "state closed2 = StateClosed \<and>
   state (breaker_step closed2 (CallRecordResult (Some boom) 300)) = StateOpen \<and>
   failureCount (breaker_step closed2 (CallRecordResult (Some boom) 300)) = 3"
proof -
  let ?c = "CallRecordResult (Some boom) 300"
  have pre: "state closed2 = StateClosed \<and> (\<exists>e now. ?c = CallRecordResult (Some e) now) \<and>
      failureThreshold closed2 \<le>s failureCount (breaker_step closed2 ?c) \<and>
      failureCount (breaker_step closed2 ?c) = failureCount closed2 + 1"
    by (simp add: closed2_eq RecordResult_def Let_def)
  from single_caller_transitions [of closed2 ?c] pre
  have "state closed2 = StateClosed \<and> state (breaker_step closed2 ?c) = StateOpen"
    by blast
  moreover have "failureCount (breaker_step closed2 ?c) = 3"
    using pre by (simp add: closed2_eq)
  ultimately show ?thesis by blast
qed

text \<open>
  The two sections of \<open>AllowRequest\<close>, run by a goroutine with no other goroutine
  between them, are the call as a single caller sees it.
\<close>

lemma AllowRequest_sections:
  "AllowRequest cb now =
     (fst (AllowRequest_read cb now),
      if snd (AllowRequest_read cb now) then AllowRequest_write cb else cb)"
  by (simp add: AllowRequest_def AllowRequest_read_def AllowRequest_write_def
      split: CircuitState.splits)

lemma sys_run_uninterleaved:
  assumes "\<not> List.member (between_sections s) g"
  shows "sys_run s (EvAllowRead g now #
           (if snd (AllowRequest_read (shared s) now) then [EvAllowWrite g] else [])) =
         Some (s\<lparr>shared := snd (AllowRequest (shared s) now)\<rparr>)"
  using assms by (simp add: AllowRequest_sections)

text \<open>
  C3. The breaker shared by goroutines makes transitions that are not among the four.
  On the breaker opened at instant 300 (threshold 3, reset timeout one second):

  \<^item> Goroutine 1 runs the first section of \<open>AllowRequest\<close> after the timeout and finds
    the breaker Open; goroutine 2 runs a whole \<open>Execute\<close> whose callback succeeds, which
    takes the breaker to HalfOpen and then to Closed with the count at 0; goroutine 1
    runs the second section. That step takes the breaker from Closed to HalfOpen.
  \<^item> Goroutine 1 runs the first section as before; goroutine 3, admitted while the
    breaker was closed, records a failure at instant 1000000302, which leaves the
    breaker Open with that instant as the last failure; goroutine 1 runs the second
    section. That step takes the breaker from Open to HalfOpen although, one nanosecond
    after the last failure, the reset timeout has not elapsed.
\<close>

theorem shared_breaker_transitions:
  "sys_run sys_open3 race_success =
     Some \<lparr>shared = open3\<lparr>state := StateClosed, failureCount := 0\<rparr>,
           between_sections = [1]\<rparr> \<and>
   sys_step \<lparr>shared = open3\<lparr>state := StateClosed, failureCount := 0\<rparr>,
             between_sections = [1]\<rparr> (EvAllowWrite 1) =
     Some \<lparr>shared = open3\<lparr>state := StateHalfOpen, failureCount := 0\<rparr>,
           between_sections = []\<rparr> \<and>
   sys_run sys_open3 race_failure =
     Some \<lparr>shared = open3\<lparr>failureCount := 4, lastFailure := 1000000302\<rparr>,
           between_sections = [1]\<rparr> \<and>
   sys_step \<lparr>shared = open3\<lparr>failureCount := 4, lastFailure := 1000000302\<rparr>,
             between_sections = [1]\<rparr> (EvAllowWrite 1) =
     Some \<lparr>shared = open3\<lparr>state := StateHalfOpen, failureCount := 4,
                          lastFailure := 1000000302\<rparr>,
           between_sections = []\<rparr> \<and>
   state open3 = StateOpen \<and>
   \<not> resetTimeout open3 < time_Sub 1000000303 1000000302"
  by (simp add: sys_open3_def race_success_def race_failure_def open3_eq AllowRequest_read_def
      AllowRequest_write_def RecordResult_def time_Sub_def maxDuration_def minDuration_def
      Let_def boom_def)

text \<open>
  C4. \<open>Execute(fn)\<close> returns \<open>ErrCircuitOpen\<close>, with the breaker and the world
  untouched and \<open>fn\<close> invoked 0 times, exactly when the breaker is Open and no more than
  \<open>resetTimeout\<close> has passed since the last failure. Otherwise it invokes \<open>fn\<close> once,
  records \<open>fn\<close>'s result on the breaker \<open>AllowRequest\<close> left, and returns that result
  as it is.
\<close>

theorem Execute_breaker_spec:
  fixes fn :: "'w callback"
  shows "Execute_breaker cb fn now later w =
    (if state cb = StateOpen \<and> \<not> resetTimeout cb < time_Sub now (lastFailure cb)
     then (Some ErrCircuitOpen, cb, w)
     else (fst (fn w), RecordResult (snd (AllowRequest cb now)) (fst (fn w)) later, snd (fn w)))
   \<and> snd (snd (snd (Execute_breaker cb (counting fn) now later (w, 0)))) =
    (if state cb = StateOpen \<and> \<not> resetTimeout cb < time_Sub now (lastFailure cb)
     then 0 else 1)"
  by (cases "state cb"; cases "fn w")
     (simp_all add: Execute_breaker_def AllowRequest_def counting_def)

text \<open>
  On the open breaker: a call right after the third failure is refused and the callback
  does not run; a call after the reset timeout runs the callback once and, as it
  succeeds, closes the breaker.
\<close>

theorem Execute_breaker_spec_witness:
  "Execute_breaker open3 always_fails 301 302 (0::nat) = (Some ErrCircuitOpen, open3, 0) \<and>
   Execute_breaker open3 succeeds 1000000301 1000000400 (0::nat) =
     (None, open3\<lparr>state := StateClosed, failureCount := 0\<rparr>, 1) \<and>
   snd (snd (snd (Execute_breaker open3 (counting succeeds) 1000000301 1000000400 (0::nat, 0)))) = 1"
proof -
  have t1: "time_Sub 301 (lastFailure open3) = 1"
    and t2: "time_Sub 1000000301 (lastFailure open3) = 1000000001"
    by (simp_all add: open3_eq time_Sub_def maxDuration_def minDuration_def)
  have a: "Execute_breaker open3 always_fails 301 302 (0::nat) = (Some ErrCircuitOpen, open3, 0)"
    using Execute_breaker_spec [of open3 always_fails 301 302 0]
    by (simp add: t1) (simp add: open3_eq)
  have b: "Execute_breaker open3 succeeds 1000000301 1000000400 (0::nat) =
     (None, open3\<lparr>state := StateClosed, failureCount := 0\<rparr>, 1) \<and>
   snd (snd (snd (Execute_breaker open3 (counting succeeds) 1000000301 1000000400 (0::nat, 0)))) = 1"
    using Execute_breaker_spec [of open3 succeeds 1000000301 1000000400 0]
    by (simp add: t2) (simp add: open3_eq succeeds_def AllowRequest_def RecordResult_def t2
        time_Sub_def maxDuration_def minDuration_def)
  from a b show ?thesis by blast
qed

section \<open>Properties of the rate limiter\<close>



section \<open>Properties of node registration\<close>

lemma RegisterAgent_below_capacity:
  "load n < capacity n \<Longrightarrow>
   RegisterAgent n a publish =
     (publish ''agent_registered'', n\<lparr>agents := (agents n)(GetName a \<mapsto> a), load := load n + 1\<rparr>)"
  by (simp add: RegisterAgent_def Let_def)

lemma RegisterAgent_at_capacity:
  "capacity n \<le> load n \<Longrightarrow>
   RegisterAgent n a publish = (Some (Errorf ''node is at capacity''), n)"
  by (simp add: RegisterAgent_def)

lemma RegisterAgent_times_below:
  "load n + int k \<le> capacity n \<Longrightarrow>
   RegisterAgent_times k n a publish =
     (replicate k (publish ''agent_registered''),
      if k = 0 then n
      else n\<lparr>agents := (agents n)(GetName a \<mapsto> a), load := load n + int k\<rparr>)"
proof (induction k arbitrary: n)
  case 0
  show ?case by simp
next
  case (Suc k)
  let ?n' = "n\<lparr>agents := (agents n)(GetName a \<mapsto> a), load := load n + 1\<rparr>"
  from Suc.prems have below: "load n < capacity n" by simp
  from Suc.prems have "load ?n' + int k \<le> capacity ?n'" by simp
  from Suc.IH [OF this] show ?case
    by (simp add: RegisterAgent_below_capacity [OF below])
qed

text \<open>
  C10. \<open>RegisterAgent\<close> keys the agents by name and has no check for a name already
  taken. On a node below capacity that already has an agent of this name, the call
  returns whatever publishing the event returns (\<open>nil\<close> when it goes out), puts the new
  agent in the place of the old one, leaves the set of registered names as it was, and
  still adds 1 to the load. So the load counts calls: registering one and the same agent
  \<open>k\<close> times on a node with \<open>k\<close> free slots adds at most that one name, brings the load
  to the capacity, and the next registration fails with "node is at capacity".
\<close>

theorem RegisterAgent_replaces_and_counts:
  "(load n < capacity n \<longrightarrow>
      (\<forall>old. agents n (GetName a) = Some old \<longrightarrow>
         fst (RegisterAgent n a publish) = publish ''agent_registered'' \<and>
         agents (snd (RegisterAgent n a publish)) = (agents n)(GetName a \<mapsto> a) \<and>
         dom (agents (snd (RegisterAgent n a publish))) = dom (agents n) \<and>
         load (snd (RegisterAgent n a publish)) = load n + 1)) \<and>
   (0 < k \<and> load n + int k = capacity n \<longrightarrow>
      fst (RegisterAgent_times k n a publish) = replicate k (publish ''agent_registered'') \<and>
      dom (agents (snd (RegisterAgent_times k n a publish))) = insert (GetName a) (dom (agents n)) \<and>
      load (snd (RegisterAgent_times k n a publish)) = capacity n \<and>
      RegisterAgent (snd (RegisterAgent_times k n a publish)) a publish =
        (Some (Errorf ''node is at capacity''), snd (RegisterAgent_times k n a publish)))"
proof (intro conjI impI allI)
  fix old
  assume b: "load n < capacity n" and o: "agents n (GetName a) = Some old"
  show "fst (RegisterAgent n a publish) = publish ''agent_registered''"
    and "agents (snd (RegisterAgent n a publish)) = (agents n)(GetName a \<mapsto> a)"
    and "load (snd (RegisterAgent n a publish)) = load n + 1"
    by (simp_all add: RegisterAgent_below_capacity [OF b])
  show "dom (agents (snd (RegisterAgent n a publish))) = dom (agents n)"
    using o by (auto simp: RegisterAgent_below_capacity [OF b])
next
  assume k: "0 < k \<and> load n + int k = capacity n"
  then have le: "load n + int k \<le> capacity n" by simp
  note r = RegisterAgent_times_below [OF le, of a publish]
  show "fst (RegisterAgent_times k n a publish) = replicate k (publish ''agent_registered'')"
    by (simp add: r)
  show "dom (agents (snd (RegisterAgent_times k n a publish))) = insert (GetName a) (dom (agents n))"
    using k by (simp add: r)
  show l: "load (snd (RegisterAgent_times k n a publish)) = capacity n"
    using k by (simp add: r)
  show "RegisterAgent (snd (RegisterAgent_times k n a publish)) a publish =
        (Some (Errorf ''node is at capacity''), snd (RegisterAgent_times k n a publish))"
    by (rule RegisterAgent_at_capacity) (use k in \<open>simp add: r\<close>)
qed

text \<open>
  A node at load 80 (capacity 100) that hosts \<open>echo\<close> takes \<open>echo\<close> again: load 81,
  the same single name. Taking it 20 times brings the load to 100 with still the single
  name, and the next registration is refused.
\<close>

theorem RegisterAgent_replaces_and_counts_witness:
  "fst (RegisterAgent node_A echo_agent publish_ok) = None \<and>
   agents (snd (RegisterAgent node_A echo_agent publish_ok)) = [''echo'' \<mapsto> echo_agent] \<and>
   dom (agents (snd (RegisterAgent node_A echo_agent publish_ok))) = {''echo''} \<and>
   load (snd (RegisterAgent node_A echo_agent publish_ok)) = 81 \<and>
   fst (RegisterAgent_times 20 node_A echo_agent publish_ok) = replicate 20 None \<and>
   dom (agents (snd (RegisterAgent_times 20 node_A echo_agent publish_ok))) = {''echo''} \<and>
   load (snd (RegisterAgent_times 20 node_A echo_agent publish_ok)) = 100 \<and>
   RegisterAgent (snd (RegisterAgent_times 20 node_A echo_agent publish_ok)) echo_agent publish_ok =
     (Some (Errorf ''node is at capacity''),
      snd (RegisterAgent_times 20 node_A echo_agent publish_ok))"
proof -
  have below: "load node_A < capacity node_A"
    and old: "agents node_A (GetName echo_agent) = Some echo_agent"
    and free: "0 < (20::nat) \<and> load node_A + int 20 = capacity node_A"
    by (simp_all add: node_A_def node_with_load_def NewNode_def echo_agent_def)
  have vals: "publish_ok ''agent_registered'' = None" "load node_A + 1 = 81"
    "capacity node_A = 100" "dom (agents node_A) = {''echo''}"
    "insert (GetName echo_agent) {''echo''} = {''echo''}"
    "(agents node_A)(GetName echo_agent \<mapsto> echo_agent) = [''echo'' \<mapsto> echo_agent]"
    by (simp_all add: node_A_def node_with_load_def NewNode_def echo_agent_def publish_ok_def)
  note once = RegisterAgent_replaces_and_counts [of node_A echo_agent publish_ok 20,
      THEN conjunct1, THEN mp, OF below, THEN spec, THEN mp, OF old]
  note many = RegisterAgent_replaces_and_counts [of node_A echo_agent publish_ok 20,
      THEN conjunct2, THEN mp, OF free]
  have 1:
    "fst (RegisterAgent node_A echo_agent publish_ok) = None \<and>
     agents (snd (RegisterAgent node_A echo_agent publish_ok)) = [''echo'' \<mapsto> echo_agent] \<and>
     dom (agents (snd (RegisterAgent node_A echo_agent publish_ok))) = {''echo''} \<and>
     load (snd (RegisterAgent node_A echo_agent publish_ok)) = 81"
    by (rule once [unfolded vals])
  have 2:
    "fst (RegisterAgent_times 20 node_A echo_agent publish_ok) = replicate 20 None \<and>
     dom (agents (snd (RegisterAgent_times 20 node_A echo_agent publish_ok))) = {''echo''} \<and>
     load (snd (RegisterAgent_times 20 node_A echo_agent publish_ok)) = 100 \<and>
     RegisterAgent (snd (RegisterAgent_times 20 node_A echo_agent publish_ok)) echo_agent publish_ok =
       (Some (Errorf ''node is at capacity''),
        snd (RegisterAgent_times 20 node_A echo_agent publish_ok))"
    by (rule many [unfolded vals])
  from 1 2 show ?thesis by (elim conjE) (intro conjI; assumption)
qed
section \<open>Properties of the scheduler\<close>














section \<open>Properties of the sequential workflow\<close>









section \<open>Properties of retry\<close>













end
